theory Spec2Isabelle
  imports Main "HOL-Library.AList"
begin

section \<open>Data model\<close>

text \<open>
  The message classes of the source (\<open>SystemMessage\<close>, \<open>HumanMessage\<close>, \<open>AIMessage\<close>, and
  the \<open>ToolMessage\<close> a tool node appends). \<open>m instanceof AIMessage\<close> is the discriminator
  \<open>is_AIMessage\<close>. Only an \<open>AIMessage\<close> carries \<open>tool_calls\<close>.
\<close>

record tool_call =
  tc_id :: string
  tc_name :: string
  tc_args :: string

datatype message =
    SystemMessage string
  | HumanMessage string
  | is_AIMessage: AIMessage string "tool_call list"
  | ToolMessage string string

text \<open>What the code writes to the console: \<open>console.log\<close>, \<open>console.warn\<close>, \<open>console.error\<close>.\<close>

datatype console = Log string | Warn string | Error string

fun is_Error :: "console \<Rightarrow> bool" where
  "is_Error (Error _) = True"
| "is_Error _ = False"

text \<open>
  The value stored in \<open>PluginSystem.plugins\<close> under a plugin's name, and the
  \<open>ToolNode([plugin])\<close> stored in \<open>PluginSystem.toolNodes\<close>. The tool object itself is opaque
  (type \<open>'tool\<close>).
\<close>

record 'tool plugin_info =
  tool :: 'tool
  description :: string
  enabled :: bool

datatype 'tool ToolNode = ToolNode "'tool list"

text \<open>
  A JavaScript \<open>Map\<close> is an association list in insertion order: \<open>has\<close>/\<open>get\<close> are
  \<open>map_of\<close>, \<open>set\<close> is \<open>AList.update\<close> (an existing key keeps its position and gets the new
  value, a new key is appended), \<open>delete\<close> is \<open>AList.delete\<close>, \<open>entries()\<close> is the list.
\<close>

definition Map_has :: "('k \<times> 'v) list \<Rightarrow> 'k \<Rightarrow> bool" where
  "Map_has m k = (map_of m k \<noteq> None)"

record 'tool PluginSystem =
  plugins :: "(string \<times> 'tool plugin_info) list"
  toolNodes :: "(string \<times> 'tool ToolNode) list"

text \<open>The element type of the array \<open>getEnabledPlugins\<close> returns.\<close>

record 'tool enabled_plugin =
  p_name :: string
  p_tool :: 'tool
  p_description :: string

section \<open>PluginSystem\<close>

definition new_PluginSystem :: "'tool PluginSystem" where
  "new_PluginSystem = \<lparr>plugins = [], toolNodes = []\<rparr>"

text \<open>\<open>registerPlugin\<close> returns \<open>this\<close>; the model returns the updated object and the console output.\<close>

definition registerPlugin ::
  "string \<Rightarrow> 'tool \<Rightarrow> string \<Rightarrow> 'tool PluginSystem \<Rightarrow> 'tool PluginSystem \<times> console list" where
  "registerPlugin name plugin descr this =
     (let warned = (if Map_has (plugins this) name
                    then [Warn (''Plugin '' @ name @ '' already registered. Overwriting...'')]
                    else []);
          plugins' = AList.update name \<lparr>tool = plugin, description = descr, enabled = True\<rparr>
                       (plugins this);
          toolNodes' = AList.update name (ToolNode [plugin]) (toolNodes this)
      in (this\<lparr>plugins := plugins', toolNodes := toolNodes'\<rparr>,
          warned @ [Log (''Plugin registered: '' @ name @ '' - '' @ descr)]))"

definition unregisterPlugin ::
  "string \<Rightarrow> 'tool PluginSystem \<Rightarrow> bool \<times> 'tool PluginSystem \<times> console list" where
  "unregisterPlugin name this =
     (if \<not> Map_has (plugins this) name
      then (False, this, [Warn (''Plugin '' @ name @ '' not found, nothing to unregister.'')])
      else (True,
            this\<lparr>plugins := AList.delete name (plugins this),
                 toolNodes := AList.delete name (toolNodes this)\<rparr>,
            [Log (''Plugin unregistered: '' @ name)]))"

definition setPluginEnabled ::
  "string \<Rightarrow> bool \<Rightarrow> 'tool PluginSystem \<Rightarrow> bool \<times> 'tool PluginSystem \<times> console list" where
  "setPluginEnabled name en this =
     (case map_of (plugins this) name of
        None \<Rightarrow> (False, this, [Warn (''Plugin '' @ name @ '' not found, can't change status.'')])
      | Some plugin \<Rightarrow>
          (True,
           this\<lparr>plugins := AList.update name (plugin\<lparr>enabled := en\<rparr>) (plugins this)\<rparr>,
           [Log (''Plugin '' @ name @ '' '' @ (if en then ''enabled'' else ''disabled''))]))"

definition getEnabledPlugins :: "'tool PluginSystem \<Rightarrow> 'tool enabled_plugin list" where
  "getEnabledPlugins this =
     map (\<lambda>(name, info). \<lparr>p_name = name, p_tool = tool info, p_description = description info\<rparr>)
       (filter (\<lambda>(name, info). enabled info) (plugins this))"

definition getEnabledTools :: "'tool PluginSystem \<Rightarrow> 'tool list" where
  "getEnabledTools this = map p_tool (getEnabledPlugins this)"

definition getToolNode :: "'tool PluginSystem \<Rightarrow> string \<Rightarrow> 'tool ToolNode option" where
  "getToolNode this name = map_of (toolNodes this) name"

text \<open>
  \<open>this.plugins.get(name)?.enabled\<close>, read as a condition: \<open>undefined\<close>, hence falsy, for
  a name without a plugin.
\<close>

definition plugin_enabled :: "'tool PluginSystem \<Rightarrow> string \<Rightarrow> bool" where
  "plugin_enabled this name =
     (case map_of (plugins this) name of None \<Rightarrow> False | Some info \<Rightarrow> enabled info)"

definition getEnabledToolNodes :: "'tool PluginSystem \<Rightarrow> (string \<times> 'tool ToolNode) list" where
  "getEnabledToolNodes this =
     filter (\<lambda>(name, node). plugin_enabled this name) (toolNodes this)"

text \<open>
  The representation invariant of the two \<open>Map\<close>s: a \<open>Map\<close> holds each key once, and the
  methods of the class keep the keys of \<open>toolNodes\<close> equal to those of \<open>plugins\<close>, in the same
  order.
\<close>

definition PluginSystem_ok :: "'tool PluginSystem \<Rightarrow> bool" where
  "PluginSystem_ok this =
     (distinct (map fst (plugins this)) \<and> map fst (toolNodes this) = map fst (plugins this))"

text \<open>
  A history of calls to \<open>registerPlugin\<close> and \<open>setPluginEnabled\<close> on a fresh
  \<open>PluginSystem\<close>, oldest call first.
\<close>

datatype 'tool registry_call = Register string 'tool string | SetEnabled string bool

fun apply_call :: "'tool PluginSystem \<Rightarrow> 'tool registry_call \<Rightarrow> 'tool PluginSystem" where
  "apply_call this (Register name plugin descr) = fst (registerPlugin name plugin descr this)"
| "apply_call this (SetEnabled name en) = fst (snd (setPluginEnabled name en this))"

definition run_calls :: "'tool registry_call list \<Rightarrow> 'tool PluginSystem" where
  "run_calls calls = foldl apply_call new_PluginSystem calls"

text \<open>
  What the spec's words say of such a history. The registration order lists each registered
  name once, at its first registration. The current plugin of a name, read from the most recent
  call backwards: a registration gives the tool and the description and enables the plugin, an
  enable/disable call on a registered name sets the flag, and a name never registered has no
  plugin.
\<close>

fun registered_names :: "'tool registry_call list \<Rightarrow> string list" where
  "registered_names [] = []"
| "registered_names (Register name plugin descr # calls) = name # registered_names calls"
| "registered_names (SetEnabled name en # calls) = registered_names calls"

fun first_occurrences :: "string list \<Rightarrow> string list" where
  "first_occurrences [] = []"
| "first_occurrences (x # xs) = x # removeAll x (first_occurrences xs)"

definition registration_order :: "'tool registry_call list \<Rightarrow> string list" where
  "registration_order calls = first_occurrences (registered_names calls)"

fun latest :: "'tool registry_call list \<Rightarrow> string \<Rightarrow> 'tool plugin_info option" where
  "latest [] n = None"
| "latest (Register name plugin descr # earlier) n =
     (if name = n then Some \<lparr>tool = plugin, description = descr, enabled = True\<rparr>
      else latest earlier n)"
| "latest (SetEnabled name en # earlier) n =
     (if name = n then map_option (\<lambda>info. info\<lparr>enabled := en\<rparr>) (latest earlier n)
      else latest earlier n)"

definition current_plugin :: "'tool registry_call list \<Rightarrow> string \<Rightarrow> 'tool plugin_info option" where
  "current_plugin calls n = latest (rev calls) n"

definition currently_enabled :: "'tool registry_call list \<Rightarrow> string \<Rightarrow> bool" where
  "currently_enabled calls n =
     (case current_plugin calls n of None \<Rightarrow> False | Some info \<Rightarrow> enabled info)"

definition current_tool :: "'tool registry_call list \<Rightarrow> string \<Rightarrow> 'tool" where
  "current_tool calls n = tool (the (current_plugin calls n))"

section \<open>Strings\<close>

text \<open>\<open>Array.prototype.join\<close> on an array of strings.\<close>

fun join :: "string \<Rightarrow> string list \<Rightarrow> string" where
  "join sep [] = []"
| "join sep [x] = x"
| "join sep (x # y # ys) = x @ sep @ join sep (y # ys)"

text \<open>\<open>String.prototype.indexOf\<close>: the position of the first occurrence, if there is one.\<close>

fun String_indexOf :: "string \<Rightarrow> string \<Rightarrow> nat option" where
  "String_indexOf [] pat = (if pat = [] then Some 0 else None)"
| "String_indexOf (c # cs) pat =
     (if take (length pat) (c # cs) = pat then Some 0
      else map_option Suc (String_indexOf cs pat))"

text \<open>
  \<open>String.prototype.replace\<close> with a string pattern and a string replacement replaces the
  first occurrence only, and expands the replacement text as ECMAScript's GetSubstitution does:
  \<open>$$\<close> is a dollar sign, \<open>$&\<close> the matched text, \<open>$`\<close> the text before the match, \<open>$'\<close> the
  text after it. With a string pattern there are no captures, so \<open>$1\<close>, \<open>$<\<close> and any other
  use of \<open>$\<close> stay as they are. The arguments are the matched text, the text before and after
  the match, and the replacement template.
\<close>

fun GetSubstitution :: "string \<Rightarrow> string \<Rightarrow> string \<Rightarrow> string \<Rightarrow> string" where
  "GetSubstitution matched preceding following [] = []"
| "GetSubstitution matched preceding following [c] = [c]"
| "GetSubstitution matched preceding following (c # d # rest) =
     (if c = CHR ''$'' \<and> d = CHR ''$'' then CHR ''$'' # GetSubstitution matched preceding following rest
      else if c = CHR ''$'' \<and> d = CHR ''&'' then matched @ GetSubstitution matched preceding following rest
      else if c = CHR ''$'' \<and> d = CHR 0x60 then preceding @ GetSubstitution matched preceding following rest
      else if c = CHR ''$'' \<and> d = CHR 0x27 then following @ GetSubstitution matched preceding following rest
      else c # GetSubstitution matched preceding following (d # rest))"

definition String_replace :: "string \<Rightarrow> string \<Rightarrow> string \<Rightarrow> string" where
  "String_replace s pat repl =
     (case String_indexOf s pat of
        None \<Rightarrow> s
      | Some pos \<Rightarrow>
          (let preceding = take pos s; following = drop (pos + length pat) s
           in preceding @ GetSubstitution pat preceding following repl @ following))"

section \<open>AgentWithPlugins\<close>

text \<open>
  The graph that \<open>buildGraph\<close> declares through the \<open>StateGraph\<close> builder of the LangGraph
  library: the nodes added, the edges added, the conditional edges with their target maps, and
  the recursion limit passed to \<open>compile\<close>. A node is the agent node (\<open>agentNode\<close> bound to the
  agent) or a plugin's \<open>ToolNode\<close>; the only router is \<open>routeFromAgent\<close> bound to the agent.
  A conditional edge has an optional default target; \<open>buildGraph\<close> gives none. The checks
  of the builder itself (a plugin named like the agent node or like a reserved marker) belong
  to the library and are not part of this record.
\<close>

datatype 'tool node = AgentNode | PluginNode "'tool ToolNode"

datatype router = RouteFromAgent

record conditional_edge =
  routeFn :: router
  targetMap :: "(string \<times> string) list"
  defaultTarget :: "string option"

record 'tool StateGraph =
  nodes :: "(string \<times> 'tool node) list"
  edges :: "(string \<times> string) list"
  conditionalEdges :: "(string \<times> conditional_edge) list"
  recursionLimit :: nat

record 'tool AgentWithPlugins =
  pluginSystem :: "'tool PluginSystem"
  systemPrompt :: string
  graph :: "'tool StateGraph option"

definition getDefaultSystemPrompt :: string where
  "getDefaultSystemPrompt =
     ''You are a helpful AI assistant that can use various tools to help the user.'' @ [CHR 0x0A] @
     ''You have access to the following tools:'' @ [CHR 0x0A] @
     ''{tool_descriptions}'' @ [CHR 0x0A] @
     [CHR 0x0A] @
     ''Always use tools when they can help answer the user'' @ [CHR 0x27] @ ''s question better.'' @ [CHR 0x0A] @
     ''After using a tool, analyze the result and determine if you need another tool or can provide the final answer.'' @ [CHR 0x0A] @
     ''Be concise and helpful in your responses.''"

text \<open>The constructor: \<open>systemPrompt || this.getDefaultSystemPrompt()\<close>; an empty string is falsy.\<close>

definition new_AgentWithPlugins :: "string option \<Rightarrow> 'tool AgentWithPlugins" where
  "new_AgentWithPlugins prompt =
     \<lparr>pluginSystem = new_PluginSystem,
      systemPrompt = (case prompt of
                        None \<Rightarrow> getDefaultSystemPrompt
                      | Some p \<Rightarrow> if p = [] then getDefaultSystemPrompt else p),
      graph = None\<rparr>"

definition buildToolDescriptions :: "'tool AgentWithPlugins \<Rightarrow> string" where
  "buildToolDescriptions this =
     (let enabledPlugins = getEnabledPlugins (pluginSystem this)
      in join [CHR 0x0A]
           (map (\<lambda>plugin. ''- '' @ p_name plugin @ '': '' @ p_description plugin) enabledPlugins))"

definition getUpdatedSystemPrompt :: "'tool AgentWithPlugins \<Rightarrow> string" where
  "getUpdatedSystemPrompt this =
     (let toolDescriptions = buildToolDescriptions this
      in String_replace (systemPrompt this) ''{tool_descriptions}'' toolDescriptions)"

definition buildGraph :: "'tool AgentWithPlugins \<Rightarrow> 'tool AgentWithPlugins" where
  "buildGraph this =
     (let tns = getEnabledToolNodes (pluginSystem this);
          workflow =
            \<lparr>nodes = (''agent'', AgentNode) # map (\<lambda>(name, n). (name, PluginNode n)) tns,
             edges = (''__start__'', ''agent'') # map (\<lambda>name. (name, ''agent'')) (map fst tns),
             conditionalEdges =
               [(''agent'',
                 \<lparr>routeFn = RouteFromAgent,
                  targetMap = (''__end__'', ''__end__'') # map (\<lambda>name. (name, name)) (map fst tns),
                  defaultTarget = None\<rparr>)],
             recursionLimit = 100\<rparr>
      in this\<lparr>graph := Some workflow\<rparr>)"

text \<open>
  \<open>routeFromAgent\<close> returns the routing key; the model returns the console output as well.
  \<open>messages[messages.length - 1]\<close> is \<open>undefined\<close> for an empty array, and
  \<open>lastMessage.tool_calls?.length\<close> is truthy when there is at least one tool call.
\<close>

definition routeFromAgent :: "'tool AgentWithPlugins \<Rightarrow> message list \<Rightarrow> string \<times> console list" where
  "routeFromAgent this messages =
     (let lastMessage = (if messages = [] then None else Some (last messages));
          routed =
            (case lastMessage of
               Some (AIMessage c (toolCall # _)) \<Rightarrow>
                 (let toolName = tc_name toolCall
                  in if list_ex (\<lambda>p. p_name p = toolName) (getEnabledPlugins (pluginSystem this))
                     then Some toolName else None)
             | _ \<Rightarrow> None)
      in case routed of
           Some toolName \<Rightarrow> (toolName, [Log (''Routing to tool: '' @ toolName)])
         | None \<Rightarrow>
             (let responseCount = length (filter is_AIMessage messages)
              in if responseCount > 10
                 then (''__end__'',
                       [Warn ''Potential infinite loop detected - forcing end of conversation''])
                 else (''__end__'', [])))"

section \<open>The engine's routing step and reducer\<close>

datatype error = RoutingKeyError string string | NoOutgoingEdgeError string

text \<open>
  Modelled from the spec: the executor of the graph library is not part of the repository's
  sources. This is the step of section 4.2 that resolves the next node after \<open>current\<close> has run:
  with a conditional edge at \<open>current\<close>, the key its router returns must be in the target map or
  equal the configured default target, otherwise the step fails with
  \<open>RoutingKeyError{node, key}\<close>; without a conditional edge the unconditional edge is taken, and
  \<open>NoOutgoingEdgeError\<close> is raised when there is none. The argument \<open>route\<close> says what each
  router returns on a state.
\<close>

definition resolveNext ::
  "'tool StateGraph \<Rightarrow> (router \<Rightarrow> 'state \<Rightarrow> string) \<Rightarrow> string \<Rightarrow> 'state \<Rightarrow> error + string" where
  "resolveNext g route current state =
     (case map_of (conditionalEdges g) current of
        Some ce \<Rightarrow>
          (let key = route (routeFn ce) state
           in case map_of (targetMap ce) key of
                Some target \<Rightarrow> Inr target
              | None \<Rightarrow>
                  (if defaultTarget ce = Some key then Inr key
                   else Inl (RoutingKeyError current key)))
      | None \<Rightarrow>
          (case map_of (edges g) current of
             Some target \<Rightarrow> Inr target
           | None \<Rightarrow> Inl (NoOutgoingEdgeError current)))"

text \<open>The router of the tool loop, read on the \<open>messages\<close> of the state.\<close>

fun route_of :: "'tool AgentWithPlugins \<Rightarrow> router \<Rightarrow> message list \<Rightarrow> string" where
  "route_of this RouteFromAgent messages = fst (routeFromAgent this messages)"

text \<open>
  Modelled from the spec: the reducer of the graph library is not part of the repository's
  sources. A run state has the \<open>messages\<close> channel and any number of other channels; a partial
  update may leave any channel out. By section 4.3, \<open>merge\<close> appends the partial's messages to
  the state's, overwrites every other channel present in the partial, and carries the absent
  channels over unchanged.
\<close>

record 'v RunState =
  messages :: "message list"
  channels :: "string \<rightharpoonup> 'v"

record 'v PartialRunState =
  partial_messages :: "message list option"
  partial_channels :: "string \<rightharpoonup> 'v"

definition messages_of :: "'v PartialRunState \<Rightarrow> message list" where
  "messages_of partial = (case partial_messages partial of None \<Rightarrow> [] | Some ms \<Rightarrow> ms)"

definition merge :: "'v RunState \<Rightarrow> 'v PartialRunState \<Rightarrow> 'v RunState" where
  "merge state partial =
     \<lparr>messages = messages state @ messages_of partial,
      channels = channels state ++ partial_channels partial\<rparr>"

text \<open>
  Modelled from the spec: the routing step of section 4.2 on a run state. The routers of the
  tool loop read the \<open>messages\<close> channel; the step resolves the next node and hands the state
  on as it received it, or fails with the error of \<open>resolveNext\<close>.
\<close>

definition routingStep ::
  "'tool StateGraph \<Rightarrow> (router \<Rightarrow> message list \<Rightarrow> string) \<Rightarrow> string \<Rightarrow> 'v RunState \<Rightarrow>
     error + (string \<times> 'v RunState)" where
  "routingStep g route current state =
     (case resolveNext g route current (messages state) of
        Inl e \<Rightarrow> Inl e
      | Inr target \<Rightarrow> Inr (target, state))"

section \<open>Example values\<close>

text \<open>
  A registry with the first two built-in plugins of \<open>registerBuiltInPlugins\<close> (tools are named
  by strings here), an agent with the default system prompt over it, a tool call to a named
  tool, and the transcript of a tool loop: a question, ten rounds of a \<open>search\<close> call with its
  result, and an eleventh \<open>search\<close> call.
\<close>

definition demo_PluginSystem :: "string PluginSystem" where
  "demo_PluginSystem =
     run_calls [Register ''search'' ''TavilySearch'' ''Search the web for current information'',
                Register ''calculator'' ''Calculator'' ''Perform mathematical calculations'']"

definition demo_agent :: "string AgentWithPlugins" where
  "demo_agent = (new_AgentWithPlugins None)\<lparr>pluginSystem := demo_PluginSystem\<rparr>"

definition call_to :: "string \<Rightarrow> tool_call" where
  "call_to name = \<lparr>tc_id = ''call_1'', tc_name = name, tc_args = ''{}''\<rparr>"

text \<open>
  A run state after the agent node has answered with a call to \<open>get_weather\<close> first and to
  \<open>search\<close> second, with a \<open>language\<close> channel beside the messages.
\<close>

definition demo_state :: "string RunState" where
  "demo_state =
     \<lparr>messages = [HumanMessage ''Weather in Tokyo?'',
                  AIMessage [] [call_to ''get_weather'', call_to ''search'']],
      channels = [''language'' \<mapsto> ''Hindi'']\<rparr>"

definition tool_loop_transcript :: "message list" where
  "tool_loop_transcript =
     HumanMessage ''What is new?'' #
     concat (replicate 10 [AIMessage [] [call_to ''search''], ToolMessage ''No results'' ''call_1'']) @
     [AIMessage [] [call_to ''search'']]"

text \<open>
  An agent whose only plugin describes itself with the characters \<open>$&\<close>, and a short system
  prompt with the placeholder.
\<close>

definition regex_agent :: "string AgentWithPlugins" where
  "regex_agent =
     (new_AgentWithPlugins (Some (''You can use these tools:'' @ [CHR 0x0A] @ ''{tool_descriptions}'')))
       \<lparr>pluginSystem :=
          run_calls [Register ''regex_replace'' ''RegexTool''
                       ''Replace matches; $& inserts the match'']\<rparr>"

lemmas model_defs =
  run_calls_def new_PluginSystem_def new_AgentWithPlugins_def registerPlugin_def
  unregisterPlugin_def setPluginEnabled_def getEnabledPlugins_def getEnabledTools_def
  getEnabledToolNodes_def plugin_enabled_def Map_has_def buildGraph_def routeFromAgent_def
  resolveNext_def buildToolDescriptions_def getUpdatedSystemPrompt_def String_replace_def
  PluginSystem_ok_def call_to_def Let_def

section \<open>The two maps of the registry\<close>

lemma Map_has_iff: "Map_has m k \<longleftrightarrow> k \<in> fst ` set m"
  by (simp add: Map_has_def map_of_eq_None_iff)

lemma update_mem: "(k, v) \<in> set (AList.update k v al)"
  by (induction al) auto

lemma update_keys_order:
  "map fst (AList.update k v al) = (if k \<in> fst ` set al then map fst al else map fst al @ [k])"
  by (induction al) auto

lemma registerPlugin_keys:
  "map fst (plugins (fst (registerPlugin name plugin descr this))) =
     (if name \<in> fst ` set (plugins this) then map fst (plugins this)
      else map fst (plugins this) @ [name])"
  by (simp add: registerPlugin_def Let_def update_keys_order)

lemma registerPlugin_lookup:
  "map_of (plugins (fst (registerPlugin name plugin descr this))) n =
     (if name = n then Some \<lparr>tool = plugin, description = descr, enabled = True\<rparr>
      else map_of (plugins this) n)"
  by (simp add: registerPlugin_def Let_def update_conv')

lemma setPluginEnabled_known:
  assumes "map_of (plugins this) name = Some info"
  shows "setPluginEnabled name en this =
     (True, this\<lparr>plugins := AList.update name (info\<lparr>enabled := en\<rparr>) (plugins this)\<rparr>,
      [Log (''Plugin '' @ name @ '' '' @ (if en then ''enabled'' else ''disabled''))])"
  using assms by (simp add: setPluginEnabled_def)

lemma setPluginEnabled_keys:
  "map fst (plugins (fst (snd (setPluginEnabled name en this)))) = map fst (plugins this)"
proof (cases "map_of (plugins this) name")
  case None
  then show ?thesis by (simp add: setPluginEnabled_def)
next
  case (Some info)
  then have "name \<in> fst ` set (plugins this)"
    by (metis map_of_eq_None_iff option.distinct(1))
  with Some show ?thesis by (simp add: setPluginEnabled_def update_keys_order)
qed

lemma setPluginEnabled_map_of:
  "map_of (plugins (fst (snd (setPluginEnabled name en this)))) n =
     (if name = n then map_option (\<lambda>info. info\<lparr>enabled := en\<rparr>) (map_of (plugins this) n)
      else map_of (plugins this) n)"
  by (cases "map_of (plugins this) name") (auto simp: setPluginEnabled_def update_conv')

lemma setPluginEnabled_lookup:
  assumes "Map_has (plugins this) name"
  shows "fst (setPluginEnabled name en this)"
    and "Map_has (plugins (fst (snd (setPluginEnabled name en this)))) name"
    and "plugin_enabled (fst (snd (setPluginEnabled name en this))) name = en"
  using assms by (auto simp: Map_has_def setPluginEnabled_known update_conv' plugin_enabled_def)

lemma unregisterPlugin_result:
  "fst (unregisterPlugin name ps) = Map_has (plugins ps) name"
  "plugins (fst (snd (unregisterPlugin name ps))) = AList.delete name (plugins ps)"
  "PluginSystem_ok ps \<Longrightarrow>
     toolNodes (fst (snd (unregisterPlugin name ps))) = AList.delete name (toolNodes ps)"
proof -
  show "fst (unregisterPlugin name ps) = Map_has (plugins ps) name"
    by (simp add: unregisterPlugin_def)
  show "plugins (fst (snd (unregisterPlugin name ps))) = AList.delete name (plugins ps)"
    by (simp add: unregisterPlugin_def Map_has_iff)
  assume "PluginSystem_ok ps"
  then have "fst ` set (toolNodes ps) = fst ` set (plugins ps)"
    unfolding PluginSystem_ok_def by (metis set_map)
  then show "toolNodes (fst (snd (unregisterPlugin name ps))) = AList.delete name (toolNodes ps)"
    by (simp add: unregisterPlugin_def Map_has_iff)
qed

subsection \<open>The methods keep the representation invariant\<close>

lemma new_PluginSystem_ok: "PluginSystem_ok new_PluginSystem"
  by (simp add: PluginSystem_ok_def new_PluginSystem_def)

lemma registerPlugin_ok:
  "PluginSystem_ok this \<Longrightarrow> PluginSystem_ok (fst (registerPlugin name plugin descr this))"
  by (auto simp: PluginSystem_ok_def registerPlugin_def Let_def distinct_update update_keys_order
      simp flip: set_map)

lemma unregisterPlugin_ok:
  "PluginSystem_ok this \<Longrightarrow> PluginSystem_ok (fst (snd (unregisterPlugin name this)))"
  by (simp add: PluginSystem_ok_def unregisterPlugin_def delete_keys distinct_removeAll)

lemma setPluginEnabled_ok:
  "PluginSystem_ok this \<Longrightarrow> PluginSystem_ok (fst (snd (setPluginEnabled name en this)))"
  by (auto simp: PluginSystem_ok_def setPluginEnabled_def distinct_update update_keys_order
      split: option.splits dest!: map_of_SomeD intro: rev_image_eqI)

lemma run_calls_snoc: "run_calls (calls @ [c]) = apply_call (run_calls calls) c"
  by (simp add: run_calls_def)

lemma run_calls_ok: "PluginSystem_ok (run_calls calls)"
proof (induction calls rule: rev_induct)
  case Nil
  show ?case by (simp add: run_calls_def new_PluginSystem_ok)
next
  case (snoc c calls)
  then show ?case
    by (cases c) (simp_all add: run_calls_snoc registerPlugin_ok setPluginEnabled_ok)
qed

subsection \<open>The enabled plugins\<close>

lemma enabled_names:
  "set (map p_name (getEnabledPlugins this)) =
     {n. \<exists>info. (n, info) \<in> set (plugins this) \<and> enabled info}"
  by (auto simp: getEnabledPlugins_def image_iff split: prod.splits)

lemma enabled_names_ok:
  "PluginSystem_ok this \<Longrightarrow>
   name \<in> set (map p_name (getEnabledPlugins this)) \<longleftrightarrow> plugin_enabled this name"
proof -
  assume "PluginSystem_ok this"
  then have "(name, info) \<in> set (plugins this) \<longleftrightarrow> map_of (plugins this) name = Some info"
    for info
    by (simp add: PluginSystem_ok_def)
  then show ?thesis
    unfolding enabled_names by (simp add: plugin_enabled_def split: option.splits)
qed

lemma registerPlugin_enables:
  "plugin_enabled (fst (registerPlugin name plugin descr this)) name"
  "name \<in> set (map p_name (getEnabledPlugins (fst (registerPlugin name plugin descr this))))"
  unfolding enabled_names
  by (auto simp: registerPlugin_def Let_def update_conv' plugin_enabled_def
      intro!: exI[of _ "\<lparr>tool = plugin, description = descr, enabled = True\<rparr>"] update_mem)

lemma enabled_tool_node_names:
  "fst ` set (getEnabledToolNodes ps) = {n \<in> fst ` set (toolNodes ps). plugin_enabled ps n}"
  by (auto simp: getEnabledToolNodes_def image_iff)

lemma enabled_tool_node_iff:
  assumes "PluginSystem_ok ps"
  shows "name \<in> fst ` set (getEnabledToolNodes ps) \<longleftrightarrow> plugin_enabled ps name"
proof -
  from assms have keys: "fst ` set (toolNodes ps) = fst ` set (plugins ps)"
    unfolding PluginSystem_ok_def by (metis set_map)
  show ?thesis
    unfolding enabled_tool_node_names keys
    by (auto simp: plugin_enabled_def split: option.splits dest!: map_of_SomeD
        intro: rev_image_eqI)
qed

section \<open>Registering, enabling and disabling plugins\<close>

text \<open>
  C6. \<open>registerPlugin\<close> has no failing branch, whether or not the name is already registered.
  Afterwards the name holds the new tool, the new description and a fresh tool node; every
  other entry is as before; a name already registered keeps its place in the order and a new
  one goes to the end; the console receives a warning exactly when the name was already
  registered, then the log line, and never an error; and registering the same plugin once more
  changes nothing.
\<close>

theorem registerPlugin_overwrites:
  "map_of (plugins (fst (registerPlugin name plugin descr this))) name =
     Some \<lparr>tool = plugin, description = descr, enabled = True\<rparr> \<and>
   map_of (toolNodes (fst (registerPlugin name plugin descr this))) name =
     Some (ToolNode [plugin]) \<and>
   (\<forall>n. n \<noteq> name \<longrightarrow>
      map_of (plugins (fst (registerPlugin name plugin descr this))) n = map_of (plugins this) n \<and>
      map_of (toolNodes (fst (registerPlugin name plugin descr this))) n =
        map_of (toolNodes this) n) \<and>
   map fst (plugins (fst (registerPlugin name plugin descr this))) =
     (if Map_has (plugins this) name then map fst (plugins this)
      else map fst (plugins this) @ [name]) \<and>
   snd (registerPlugin name plugin descr this) =
     (if Map_has (plugins this) name
      then [Warn (''Plugin '' @ name @ '' already registered. Overwriting...'')] else []) @
     [Log (''Plugin registered: '' @ name @ '' - '' @ descr)] \<and>
   list_all (\<lambda>line. \<not> is_Error line) (snd (registerPlugin name plugin descr this)) \<and>
   fst (registerPlugin name plugin descr (fst (registerPlugin name plugin descr this))) =
     fst (registerPlugin name plugin descr this)"
  by (simp add: registerPlugin_def Let_def update_conv' update_keys_order Map_has_iff)

text \<open>
  The theorem at the example registry: \<open>search\<close> is registered again with another tool; it
  stays first, the calculator is untouched, and the console gets the warning and the log line.
\<close>

theorem registerPlugin_overwrites_witness:
  "Map_has (plugins demo_PluginSystem) ''search'' \<and> ''calculator'' \<noteq> ''search'' \<and>
   map_of (plugins (fst (registerPlugin ''search'' ''Bing'' ''Search with Bing'' demo_PluginSystem)))
     ''search'' = Some \<lparr>tool = ''Bing'', description = ''Search with Bing'', enabled = True\<rparr> \<and>
   map_of (plugins (fst (registerPlugin ''search'' ''Bing'' ''Search with Bing'' demo_PluginSystem)))
     ''calculator'' = map_of (plugins demo_PluginSystem) ''calculator'' \<and>
   map fst (plugins (fst (registerPlugin ''search'' ''Bing'' ''Search with Bing'' demo_PluginSystem))) =
     [''search'', ''calculator''] \<and>
   snd (registerPlugin ''search'' ''Bing'' ''Search with Bing'' demo_PluginSystem) =
     [Warn ''Plugin search already registered. Overwriting...'',
      Log ''Plugin registered: search - Search with Bing'']"
proof -
  have has: "Map_has (plugins demo_PluginSystem) ''search''"
    by (simp add: demo_PluginSystem_def model_defs)
  have keys: "map fst (plugins demo_PluginSystem) = [''search'', ''calculator'']"
    by (simp add: demo_PluginSystem_def model_defs)
  from registerPlugin_overwrites [of "''search''" "''Bing''" "''Search with Bing''" demo_PluginSystem]
  show ?thesis using has keys by simp
qed

text \<open>
  C8. For a name that is not registered, \<open>setPluginEnabled\<close> returns \<open>false\<close>, raises nothing
  (its only effect is a console warning) and leaves the registry as it was.
\<close>

theorem setPluginEnabled_unknown:
  "\<not> Map_has (plugins this) name \<Longrightarrow>
   setPluginEnabled name en this =
     (False, this, [Warn (''Plugin '' @ name @ '' not found, can't change status.'')])"
  by (simp add: setPluginEnabled_def Map_has_def)

text \<open>
  The theorem at the example registry, which has no plugin \<open>weather\<close>.
\<close>

theorem setPluginEnabled_unknown_witness:
  "\<not> Map_has (plugins demo_PluginSystem) ''weather'' \<and>
   setPluginEnabled ''weather'' True demo_PluginSystem =
     (False, demo_PluginSystem, [Warn ''Plugin weather not found, can't change status.''])"
proof -
  have unknown: "\<not> Map_has (plugins demo_PluginSystem) ''weather''"
    by (simp add: demo_PluginSystem_def model_defs)
  from setPluginEnabled_unknown [OF unknown, of True] unknown
  show ?thesis by simp
qed

text \<open>
  C10. Right after \<open>registerPlugin(name, tool, description)\<close> the plugin's \<open>enabled\<close> flag is
  true and the plugin is among the enabled plugins. In particular, for a registered plugin that
  \<open>setPluginEnabled(name, false)\<close> has disabled (the call returns \<open>true\<close>, the plugin stays
  registered, its flag is false and it is not among the enabled plugins), registering it again
  enables it again.
\<close>

theorem registerPlugin_enables_plugin:
  "plugin_enabled (fst (registerPlugin name plugin descr this)) name \<and>
   name \<in> set (map p_name (getEnabledPlugins (fst (registerPlugin name plugin descr this)))) \<and>
   (PluginSystem_ok this \<and> Map_has (plugins this) name \<longrightarrow>
      (let disabled = fst (snd (setPluginEnabled name False this))
       in fst (setPluginEnabled name False this) \<and>
          Map_has (plugins disabled) name \<and>
          \<not> plugin_enabled disabled name \<and>
          name \<notin> set (map p_name (getEnabledPlugins disabled)) \<and>
          plugin_enabled (fst (registerPlugin name plugin descr disabled)) name \<and>
          name \<in> set (map p_name
                        (getEnabledPlugins (fst (registerPlugin name plugin descr disabled))))))"
proof -
  have "name \<notin> set (map p_name (getEnabledPlugins (fst (snd (setPluginEnabled name False this)))))"
    if ok: "PluginSystem_ok this" and has: "Map_has (plugins this) name"
    unfolding enabled_names_ok[OF setPluginEnabled_ok[OF ok]] setPluginEnabled_lookup(3)[OF has]
    by simp
  then show ?thesis
    unfolding Let_def
    by (intro conjI impI registerPlugin_enables)
       (simp_all only: setPluginEnabled_lookup not_False_eq_True)
qed

text \<open>
  The theorem at the example registry: the calculator is disabled, then registered again.
\<close>

theorem registerPlugin_enables_plugin_witness:
  "PluginSystem_ok demo_PluginSystem \<and> Map_has (plugins demo_PluginSystem) ''calculator'' \<and>
   \<not> plugin_enabled (fst (snd (setPluginEnabled ''calculator'' False demo_PluginSystem)))
        ''calculator'' \<and>
   plugin_enabled
     (fst (registerPlugin ''calculator'' ''Calculator'' ''Perform mathematical calculations''
             (fst (snd (setPluginEnabled ''calculator'' False demo_PluginSystem)))))
     ''calculator''"
proof -
  have ok: "PluginSystem_ok demo_PluginSystem"
    unfolding demo_PluginSystem_def by (rule run_calls_ok)
  have has: "Map_has (plugins demo_PluginSystem) ''calculator''"
    by (simp add: demo_PluginSystem_def model_defs)
  from registerPlugin_enables_plugin
         [of "''calculator''" "''Calculator''" "''Perform mathematical calculations''"
             demo_PluginSystem]
  show ?thesis using ok has by (simp add: Let_def)
qed

section \<open>The enabled tools, in registration order\<close>

lemma set_first_occurrences: "set (first_occurrences xs) = set xs"
  by (induction xs) auto

lemma distinct_first_occurrences: "distinct (first_occurrences xs)"
  by (induction xs) (auto simp: set_first_occurrences distinct_removeAll)

lemma first_occurrences_snoc:
  "first_occurrences (xs @ [x]) =
     (if x \<in> set xs then first_occurrences xs else first_occurrences xs @ [x])"
  by (induction xs) (auto simp: set_first_occurrences)

lemma registered_names_snoc:
  "registered_names (calls @ [c]) =
     registered_names calls @ (case c of Register n t d \<Rightarrow> [n] | SetEnabled n b \<Rightarrow> [])"
  by (induction calls rule: registered_names.induct) (auto split: registry_call.splits)

lemma run_calls_keys: "map fst (plugins (run_calls calls)) = registration_order calls"
proof (induction calls rule: rev_induct)
  case Nil
  show ?case by (simp add: run_calls_def new_PluginSystem_def registration_order_def)
next
  case (snoc c calls)
  have keys: "fst ` set (plugins (run_calls calls)) = set (registered_names calls)"
    using snoc by (simp add: registration_order_def set_first_occurrences flip: set_map)
  show ?case
  proof (cases c)
    case (Register n t d)
    then show ?thesis
      using snoc keys
      by (simp add: run_calls_snoc registration_order_def registered_names_snoc
          first_occurrences_snoc registerPlugin_keys)
  next
    case (SetEnabled n b)
    then show ?thesis
      using snoc
      by (simp add: run_calls_snoc registration_order_def registered_names_snoc
          setPluginEnabled_keys)
  qed
qed

lemma run_calls_lookup: "map_of (plugins (run_calls calls)) n = current_plugin calls n"
proof (induction calls rule: rev_induct)
  case Nil
  show ?case by (simp add: run_calls_def new_PluginSystem_def current_plugin_def)
next
  case (snoc c calls)
  then have IH: "map_of (plugins (run_calls calls)) n = latest (rev calls) n"
    by (simp only: current_plugin_def)
  show ?case
  proof (cases c)
    case (Register name plugin descr)
    then show ?thesis
      by (simp add: run_calls_snoc current_plugin_def registerPlugin_lookup IH)
  next
    case (SetEnabled name en)
    then show ?thesis
      by (simp add: run_calls_snoc current_plugin_def setPluginEnabled_map_of IH)
  qed
qed

lemma distinct_alist_values:
  "distinct (map fst al) \<Longrightarrow> map snd al = map (\<lambda>k. the (map_of al k)) (map fst al)"
proof (induction al)
  case Nil
  show ?case by simp
next
  case (Cons p al)
  obtain k v where p: "p = (k, v)" by (cases p)
  from Cons.prems have notin: "k \<notin> fst ` set al" and dist: "distinct (map fst al)"
    by (simp_all add: p)
  have "map (\<lambda>k'. the (map_of (p # al) k')) (map fst al) =
        map (\<lambda>k'. the (map_of al k')) (map fst al)"
    using notin by (intro map_cong refl) (auto simp: p)
  with Cons.IH[OF dist] show ?case by (simp add: p)
qed

lemma enabled_tools_entries:
  "map p_tool (map (\<lambda>(name, info). \<lparr>p_name = name, p_tool = tool info,
                                         p_description = description info\<rparr>)
                (filter (\<lambda>(name, info). enabled info) al)) =
   map tool (filter enabled (map snd al))"
  by (induction al) auto

lemma getEnabledTools_entries:
  "getEnabledTools this = map tool (filter enabled (map snd (plugins this)))"
  unfolding getEnabledTools_def getEnabledPlugins_def by (rule enabled_tools_entries)

lemma getEnabledTools_run_calls:
  "getEnabledTools (run_calls calls) =
     map (current_tool calls) (filter (currently_enabled calls) (registration_order calls))"
proof -
  let ?al = "plugins (run_calls calls)"
  have dist: "distinct (map fst ?al)"
    by (simp add: run_calls_keys registration_order_def distinct_first_occurrences)
  have vals: "map snd ?al = map (\<lambda>k. the (current_plugin calls k)) (registration_order calls)"
    using distinct_alist_values[OF dist] by (simp add: run_calls_lookup run_calls_keys)
  have known: "\<exists>info. current_plugin calls k = Some info"
    if "k \<in> set (registration_order calls)" for k
  proof -
    from that have "k \<in> set (map fst ?al)" by (simp only: run_calls_keys)
    then have "map_of ?al k \<noteq> None" by (simp add: map_of_eq_None_iff)
    then show ?thesis by (simp add: run_calls_lookup)
  qed
  have flt: "filter (\<lambda>k. enabled (the (current_plugin calls k))) (registration_order calls) =
      filter (currently_enabled calls) (registration_order calls)"
    by (rule filter_cong) (auto simp: currently_enabled_def dest: known)
  have tl: "(\<lambda>k. tool (the (current_plugin calls k))) = current_tool calls"
    by (simp add: current_tool_def fun_eq_iff)
  show ?thesis
    unfolding getEnabledTools_entries vals filter_map
    by (simp add: comp_def flt tl)
qed

text \<open>
  C7. After any sequence of registrations and enable/disable calls on a fresh registry,
  \<open>getEnabledTools\<close> returns the current tools of the currently enabled plugins, in
  registration order. In the scenario of the spec, with \<open>search\<close> and \<open>calc\<close> registered in
  this order and \<open>calc\<close> disabled, it returns \<open>[search]\<close>, and after
  \<open>setPluginEnabled("calc", true)\<close> it returns \<open>[search, calc]\<close>.
\<close>

theorem getEnabledTools_registration_order:
  "getEnabledTools (run_calls calls) =
     map (current_tool calls) (filter (currently_enabled calls) (registration_order calls)) \<and>
   getEnabledTools (run_calls [Register ''search'' search d1, Register ''calc'' calc d2,
                               SetEnabled ''calc'' False]) = [search] \<and>
   getEnabledTools (run_calls [Register ''search'' search d1, Register ''calc'' calc d2,
                               SetEnabled ''calc'' False, SetEnabled ''calc'' True]) =
     [search, calc]"
proof (intro conjI)
  show "getEnabledTools (run_calls calls) =
     map (current_tool calls) (filter (currently_enabled calls) (registration_order calls))"
    by (rule getEnabledTools_run_calls)
  show "getEnabledTools (run_calls [Register ''search'' search d1, Register ''calc'' calc d2,
                               SetEnabled ''calc'' False]) = [search]"
    by (simp add: model_defs)
  show "getEnabledTools (run_calls [Register ''search'' search d1, Register ''calc'' calc d2,
                               SetEnabled ''calc'' False, SetEnabled ''calc'' True]) =
     [search, calc]"
    by (simp add: model_defs)
qed

section \<open>The graph that buildGraph compiles\<close>

lemma graph_buildGraph:
  "graph (buildGraph this) =
     Some \<lparr>nodes = (''agent'', AgentNode) #
                    map (\<lambda>(name, n). (name, PluginNode n)) (getEnabledToolNodes (pluginSystem this)),
           edges = (''__start__'', ''agent'') #
                    map (\<lambda>name. (name, ''agent'')) (map fst (getEnabledToolNodes (pluginSystem this))),
           conditionalEdges =
             [(''agent'',
               \<lparr>routeFn = RouteFromAgent,
                targetMap = (''__end__'', ''__end__'') #
                            map (\<lambda>name. (name, name)) (map fst (getEnabledToolNodes (pluginSystem this))),
                defaultTarget = None\<rparr>)],
           recursionLimit = 100\<rparr>"
  by (simp add: buildGraph_def Let_def)

lemma pluginSystem_buildGraph: "pluginSystem (buildGraph this) = pluginSystem this"
  by (simp add: buildGraph_def Let_def)

lemma map_of_identity_pairs:
  "map_of (map ((\<lambda>name. (name, name)) \<circ> fst) tns) k =
     (if k \<in> fst ` set tns then Some k else None)"
  by (induction tns) auto

lemma nodes_buildGraph:
  "graph (buildGraph this) = Some g \<Longrightarrow>
   fst ` set (nodes g) = insert ''agent'' (fst ` set (getEnabledToolNodes (pluginSystem this)))"
  unfolding graph_buildGraph by force

lemma edges_buildGraph:
  "graph (buildGraph this) = Some g \<Longrightarrow>
   set (edges g) = insert (''__start__'', ''agent'')
     ((\<lambda>name. (name, ''agent'')) ` fst ` set (getEnabledToolNodes (pluginSystem this)))"
  unfolding graph_buildGraph by force

lemma targets_buildGraph:
  "graph (buildGraph this) = Some g \<Longrightarrow> (src, ce) \<in> set (conditionalEdges g) \<Longrightarrow>
   map_of (targetMap ce) k =
     (if k = ''__end__'' \<or> k \<in> fst ` set (getEnabledToolNodes (pluginSystem this))
      then Some k else None)"
  unfolding graph_buildGraph by (force simp: map_of_identity_pairs)

text \<open>
  C3. Let a graph be compiled by \<open>buildGraph\<close>, and let \<open>unregisterPlugin(name)\<close> be called on
  the agent's plugin system afterwards, for a name that is none of the graph's reserved names.
  The call returns \<open>true\<close> exactly when the name was registered; afterwards the name has no
  plugin and no tool node, so it is not among the enabled tool nodes, and every other entry is
  as before. The compiled graph is the same graph as before the call: it has the node, the
  edge back to the agent and the route of the name exactly when the plugin was enabled at
  compile time. A graph compiled after the call has none of them.
\<close>

theorem unregisterPlugin_removes:
  assumes ok: "PluginSystem_ok (pluginSystem a)"
    and reserved: "name \<notin> {''agent'', ''__end__'', ''__start__''}"
    and compiled: "compiled = buildGraph a"
    and after: "after = compiled\<lparr>pluginSystem :=
                                  fst (snd (unregisterPlugin name (pluginSystem compiled)))\<rparr>"
  shows "fst (unregisterPlugin name (pluginSystem compiled)) =
           Map_has (plugins (pluginSystem compiled)) name \<and>
         \<not> Map_has (plugins (pluginSystem after)) name \<and>
         \<not> Map_has (toolNodes (pluginSystem after)) name \<and>
         name \<notin> fst ` set (getEnabledToolNodes (pluginSystem after)) \<and>
         (\<forall>n. n \<noteq> name \<longrightarrow>
              map_of (plugins (pluginSystem after)) n = map_of (plugins (pluginSystem compiled)) n \<and>
              map_of (toolNodes (pluginSystem after)) n =
                map_of (toolNodes (pluginSystem compiled)) n) \<and>
         graph after = graph compiled \<and>
         (case graph after of
            None \<Rightarrow> False
          | Some g \<Rightarrow>
              (name \<in> fst ` set (nodes g)) = plugin_enabled (pluginSystem compiled) name \<and>
              ((name, ''agent'') \<in> set (edges g)) = plugin_enabled (pluginSystem compiled) name \<and>
              (\<forall>(src, ce) \<in> set (conditionalEdges g).
                 (map_of (targetMap ce) name = Some name) =
                   plugin_enabled (pluginSystem compiled) name)) \<and>
         (case graph (buildGraph after) of
            None \<Rightarrow> False
          | Some g' \<Rightarrow>
              name \<notin> fst ` set (nodes g') \<and>
              (name, ''agent'') \<notin> set (edges g') \<and>
              (\<forall>(src, ce) \<in> set (conditionalEdges g'). map_of (targetMap ce) name = None))"
proof -
  let ?ps = "pluginSystem compiled"
  have ok': "PluginSystem_ok ?ps"
    using ok by (simp add: compiled pluginSystem_buildGraph)
  have pa: "plugins (pluginSystem after) = AList.delete name (plugins ?ps)"
    by (simp add: after unregisterPlugin_result(2))
  have ta: "toolNodes (pluginSystem after) = AList.delete name (toolNodes ?ps)"
    by (simp add: after unregisterPlugin_result(3)[OF ok'])
  have gone: "name \<notin> fst ` set (getEnabledToolNodes (pluginSystem after))"
    unfolding enabled_tool_node_names ta by (simp add: delete_notin_dom)
  note enabled_iff = enabled_tool_node_iff[OF ok', of name]
  have g_after: "graph after = graph compiled" by (simp add: after)
  obtain g where g: "graph (buildGraph compiled) = Some g" by (simp add: graph_buildGraph)
  have gc: "graph compiled = Some g"
    using g unfolding graph_buildGraph compiled by (simp add: buildGraph_def Let_def)
  obtain g' where g': "graph (buildGraph after) = Some g'" by (simp add: graph_buildGraph)
  have ret: "fst (unregisterPlugin name ?ps) = Map_has (plugins ?ps) name"
    by (rule unregisterPlugin_result(1))
  have no_plugin: "\<not> Map_has (plugins (pluginSystem after)) name"
    by (simp add: pa Map_has_iff delete_notin_dom)
  have no_node: "\<not> Map_has (toolNodes (pluginSystem after)) name"
    by (simp add: ta Map_has_iff delete_notin_dom)
  have others: "\<forall>n. n \<noteq> name \<longrightarrow>
              map_of (plugins (pluginSystem after)) n = map_of (plugins ?ps) n \<and>
              map_of (toolNodes (pluginSystem after)) n = map_of (toolNodes ?ps) n"
    by (simp add: pa ta delete_conv')
  from reserved have r: "name \<noteq> ''agent''" "name \<noteq> ''__end__''" "name \<noteq> ''__start__''"
    by simp_all
  have edge_mem: "((name, ''agent'') \<in> (\<lambda>n. (n, ''agent'')) ` S) = (name \<in> S)" for S
    by auto
  have old_graph: "(name \<in> fst ` set (nodes g)) = plugin_enabled ?ps name \<and>
           ((name, ''agent'') \<in> set (edges g)) = plugin_enabled ?ps name"
    by (simp add: nodes_buildGraph[OF g] edges_buildGraph[OF g] enabled_iff r edge_mem)
  have old_targets: "\<forall>(src, ce) \<in> set (conditionalEdges g).
              (map_of (targetMap ce) name = Some name) = plugin_enabled ?ps name"
  proof clarify
    fix src ce assume "(src, ce) \<in> set (conditionalEdges g)"
    from targets_buildGraph[OF g this]
    show "(map_of (targetMap ce) name = Some name) = plugin_enabled ?ps name"
      by (simp add: enabled_iff r)
  qed
  have new_graph: "name \<notin> fst ` set (nodes g') \<and> (name, ''agent'') \<notin> set (edges g')"
    by (simp add: nodes_buildGraph[OF g'] edges_buildGraph[OF g'] gone r edge_mem)
  have new_targets: "\<forall>(src, ce) \<in> set (conditionalEdges g'). map_of (targetMap ce) name = None"
  proof clarify
    fix src ce assume "(src, ce) \<in> set (conditionalEdges g')"
    from targets_buildGraph[OF g' this]
    show "map_of (targetMap ce) name = None"
      by (simp add: gone r)
  qed
  show ?thesis
    unfolding g_after gc g' option.case
    using ret no_plugin no_node gone others old_graph old_targets new_graph new_targets
    by blast
qed

text \<open>
  The theorem at the example agent: the graph is compiled with \<open>search\<close> and \<open>calculator\<close>
  enabled, then \<open>calculator\<close> is unregistered. The compiled graph keeps its three nodes; a
  fresh compile has two.
\<close>

theorem unregisterPlugin_removes_witness:
  "PluginSystem_ok (pluginSystem demo_agent) \<and>
   ''calculator'' \<notin> {''agent'', ''__end__'', ''__start__''} \<and>
   fst (unregisterPlugin ''calculator'' (pluginSystem (buildGraph demo_agent))) \<and>
   map_option (map fst \<circ> nodes)
     (graph ((buildGraph demo_agent)\<lparr>pluginSystem :=
        fst (snd (unregisterPlugin ''calculator'' (pluginSystem (buildGraph demo_agent))))\<rparr>)) =
     Some [''agent'', ''search'', ''calculator''] \<and>
   map_option (map fst \<circ> nodes)
     (graph (buildGraph ((buildGraph demo_agent)\<lparr>pluginSystem :=
        fst (snd (unregisterPlugin ''calculator'' (pluginSystem (buildGraph demo_agent))))\<rparr>))) =
     Some [''agent'', ''search'']"
proof -
  have ok: "PluginSystem_ok (pluginSystem demo_agent)"
    unfolding demo_agent_def demo_PluginSystem_def by (simp add: run_calls_ok)
  have reserved: "''calculator'' \<notin> {''agent'', ''__end__'', ''__start__''}"
    by simp
  have eval: "map_option (map fst \<circ> nodes)
     (graph ((buildGraph demo_agent)\<lparr>pluginSystem :=
        fst (snd (unregisterPlugin ''calculator'' (pluginSystem (buildGraph demo_agent))))\<rparr>)) =
     Some [''agent'', ''search'', ''calculator''] \<and>
   map_option (map fst \<circ> nodes)
     (graph (buildGraph ((buildGraph demo_agent)\<lparr>pluginSystem :=
        fst (snd (unregisterPlugin ''calculator'' (pluginSystem (buildGraph demo_agent))))\<rparr>))) =
     Some [''agent'', ''search'']"
    by (simp add: demo_agent_def demo_PluginSystem_def model_defs)
  have has: "Map_has (plugins (pluginSystem (buildGraph demo_agent))) ''calculator''"
    by (simp add: demo_agent_def demo_PluginSystem_def model_defs)
  from unregisterPlugin_removes [OF ok reserved refl refl]
  have "fst (unregisterPlugin ''calculator'' (pluginSystem (buildGraph demo_agent))) =
          Map_has (plugins (pluginSystem (buildGraph demo_agent))) ''calculator''"
    by (rule conjunct1)
  with has ok reserved eval show ?thesis by simp
qed

section \<open>Routing from the agent node\<close>

lemma list_ex_enabled:
  "list_ex (\<lambda>p. p_name p = n) (getEnabledPlugins ps) \<longleftrightarrow>
     n \<in> set (map p_name (getEnabledPlugins ps))"
  by (auto simp: list_ex_iff)

lemma routeFromAgent_tool:
  assumes "msgs \<noteq> []" and "last msgs = AIMessage c (toolCall # rest)"
    and "tc_name toolCall \<in> set (map p_name (getEnabledPlugins (pluginSystem this)))"
  shows "routeFromAgent this msgs =
           (tc_name toolCall, [Log (''Routing to tool: '' @ tc_name toolCall)])"
  using assms unfolding routeFromAgent_def list_ex_enabled by (simp add: Let_def)

lemma routeFromAgent_no_tool:
  assumes "msgs \<noteq> []" and "last msgs = AIMessage c (toolCall # rest)"
    and "tc_name toolCall \<notin> set (map p_name (getEnabledPlugins (pluginSystem this)))"
  shows "fst (routeFromAgent this msgs) = ''__end__''"
  using assms unfolding routeFromAgent_def list_ex_enabled by (simp add: Let_def)

lemma routeFromAgent_no_calls:
  assumes "msgs = [] \<or> \<not> is_AIMessage (last msgs) \<or> last msgs = AIMessage c []"
  shows "fst (routeFromAgent this msgs) = ''__end__''"
  using assms unfolding routeFromAgent_def
  by (auto simp: Let_def split: message.splits list.splits)

lemma routeFromAgent_range:
  "fst (routeFromAgent this msgs) = ''__end__'' \<or>
   fst (routeFromAgent this msgs) \<in> set (map p_name (getEnabledPlugins (pluginSystem this)))"
  unfolding routeFromAgent_def list_ex_enabled
  by (simp add: Let_def split: message.splits list.splits option.splits)

lemma resolveNext_agent:
  assumes "graph (buildGraph built) = Some g"
  shows "resolveNext g route ''agent'' state =
     (let key = route RouteFromAgent state
      in if key = ''__end__'' \<or> key \<in> fst ` set (getEnabledToolNodes (pluginSystem built))
         then Inr key else Inl (RoutingKeyError ''agent'' key))"
proof -
  from assms have g: "map_of (conditionalEdges g) ''agent'' =
      Some \<lparr>routeFn = RouteFromAgent,
            targetMap = (''__end__'', ''__end__'') #
                        map ((\<lambda>name. (name, name)) \<circ> fst)
                          (getEnabledToolNodes (pluginSystem built)),
            defaultTarget = None\<rparr>"
    unfolding graph_buildGraph by auto
  show ?thesis
    unfolding resolveNext_def g by (simp add: Let_def map_of_identity_pairs)
qed

text \<open>
  With a graph compiled from the registry that the router reads, the routing step after the
  agent node never fails: the key is the terminal marker or the name of an enabled tool node.
\<close>

lemma tool_loop_routing_total:
  assumes "PluginSystem_ok (pluginSystem this)" and "graph (buildGraph this) = Some g"
  shows "resolveNext g (route_of this) ''agent'' msgs = Inr (fst (routeFromAgent this msgs))"
proof -
  let ?key = "fst (routeFromAgent this msgs)"
  from routeFromAgent_range[of this msgs]
  have "?key = ''__end__'' \<or> ?key \<in> fst ` set (getEnabledToolNodes (pluginSystem this))"
    by (simp only: enabled_names_ok[OF assms(1)] enabled_tool_node_iff[OF assms(1)])
  then show ?thesis
    by (simp add: resolveNext_agent[OF assms(2)] Let_def)
qed

text \<open>
  C1 (as stated) is false at the example agent: the agent's last message calls the tool
  \<open>ghost\<close>, which is not registered; the target map of the compiled graph has no key \<open>ghost\<close>
  and there is no default target; and the routing step after the agent node resolves to the
  terminal marker instead of raising \<open>RoutingKeyError\<close>.
\<close>

theorem unregistered_tool_no_RoutingKeyError:
  "\<not> Map_has (plugins (pluginSystem demo_agent)) ''ghost'' \<and>
   graph (buildGraph demo_agent) \<noteq> None \<and>
   map_of (conditionalEdges (the (graph (buildGraph demo_agent)))) ''agent'' =
     Some \<lparr>routeFn = RouteFromAgent,
           targetMap = [(''__end__'', ''__end__''), (''search'', ''search''),
                        (''calculator'', ''calculator'')],
           defaultTarget = None\<rparr> \<and>
   resolveNext (the (graph (buildGraph demo_agent))) (route_of demo_agent) ''agent''
     [HumanMessage ''hi'', AIMessage [] [call_to ''ghost'']] = Inr ''__end__''"
  by (simp add: demo_agent_def demo_PluginSystem_def model_defs)

text \<open>
  C1 (amended). When the agent node's last message carries tool calls of which the first names
  a tool that is not registered, \<open>routeFromAgent\<close> returns the terminal marker \<open>__end__\<close>.
  This key is in the target map of every graph that \<open>buildGraph\<close> compiles, so the routing
  step after the agent node resolves to the terminal marker and raises no \<open>RoutingKeyError\<close>,
  and the run state after the routing step is the run state before it.
\<close>

theorem unregistered_tool_routes_to_end:
  assumes "messages state \<noteq> []"
    and "last (messages state) = AIMessage c (toolCall # rest)"
    and "\<not> Map_has (plugins (pluginSystem this)) (tc_name toolCall)"
    and "graph (buildGraph built) = Some g"
  shows "fst (routeFromAgent this (messages state)) = ''__end__'' \<and>
         resolveNext g (route_of this) ''agent'' (messages state) = Inr ''__end__'' \<and>
         routingStep g (route_of this) ''agent'' state = Inr (''__end__'', state)"
proof -
  from assms(3)
  have "tc_name toolCall \<notin> set (map p_name (getEnabledPlugins (pluginSystem this)))"
    unfolding enabled_names Map_has_iff by force
  from routeFromAgent_no_tool[OF assms(1,2) this]
  show ?thesis by (simp add: routingStep_def resolveNext_agent[OF assms(4)])
qed

text \<open>
  The theorem at the example agent and the example state, whose last message asks for
  \<open>get_weather\<close> first and \<open>search\<close> second.
\<close>

theorem unregistered_tool_routes_to_end_witness:
  "messages demo_state \<noteq> [] \<and>
   last (messages demo_state) = AIMessage [] [call_to ''get_weather'', call_to ''search''] \<and>
   \<not> Map_has (plugins (pluginSystem demo_agent)) (tc_name (call_to ''get_weather'')) \<and>
   graph (buildGraph demo_agent) \<noteq> None \<and>
   fst (routeFromAgent demo_agent (messages demo_state)) = ''__end__'' \<and>
   resolveNext (the (graph (buildGraph demo_agent))) (route_of demo_agent) ''agent''
     (messages demo_state) = Inr ''__end__'' \<and>
   routingStep (the (graph (buildGraph demo_agent))) (route_of demo_agent) ''agent'' demo_state =
     Inr (''__end__'', demo_state)"
proof -
  have ne: "messages demo_state \<noteq> []" by (simp add: demo_state_def)
  have lst: "last (messages demo_state) =
               AIMessage [] (call_to ''get_weather'' # [call_to ''search''])"
    by (simp add: demo_state_def)
  have unknown: "\<not> Map_has (plugins (pluginSystem demo_agent)) (tc_name (call_to ''get_weather''))"
    by (simp add: demo_agent_def demo_PluginSystem_def model_defs)
  obtain g where g: "graph (buildGraph demo_agent) = Some g"
    by (simp add: graph_buildGraph)
  from unregistered_tool_routes_to_end [OF ne lst unknown g]
  show ?thesis using ne lst unknown by (simp add: g)
qed

text \<open>
  C2 (as stated) is false at the example agent: the last message contains a tool call whose
  name matches the enabled plugin \<open>search\<close>, but the call comes second, after a call to the
  unknown \<open>ghost\<close>, and the router returns the terminal marker.
\<close>

theorem later_tool_call_not_routed:
  "plugin_enabled (pluginSystem demo_agent) ''search'' \<and>
   routeFromAgent demo_agent
     [HumanMessage ''hi'', AIMessage [] [call_to ''ghost'', call_to ''search'']] =
     (''__end__'', [])"
  by (simp add: demo_agent_def demo_PluginSystem_def model_defs)

text \<open>
  C2 (amended). For every state with at most ten assistant messages whose latest message is
  an assistant message with one or more tool calls of which the first names a currently
  enabled plugin, \<open>routeFromAgent\<close> returns that name, and in the graph compiled from this
  registry the name is a node and the routing step after the agent node resolves to it. Every
  tool node of the graph has an unconditional edge back to the agent node. Nothing is said of
  states with more than ten assistant messages.
\<close>

theorem route_to_first_enabled_tool:
  assumes ok: "PluginSystem_ok (pluginSystem this)"
    and ne: "msgs \<noteq> []" and lst: "last msgs = AIMessage c (toolCall # rest)"
    and en: "tc_name toolCall \<in> set (map p_name (getEnabledPlugins (pluginSystem this)))"
    and few: "length (filter is_AIMessage msgs) \<le> 10"
    and g: "graph (buildGraph this) = Some g"
  shows "routeFromAgent this msgs =
           (tc_name toolCall, [Log (''Routing to tool: '' @ tc_name toolCall)]) \<and>
         tc_name toolCall \<in> fst ` set (nodes g) \<and>
         resolveNext g (route_of this) ''agent'' msgs = Inr (tc_name toolCall) \<and>
         (\<forall>name n. (name, PluginNode n) \<in> set (nodes g) \<longrightarrow> (name, ''agent'') \<in> set (edges g))"
proof -
  have route: "routeFromAgent this msgs =
           (tc_name toolCall, [Log (''Routing to tool: '' @ tc_name toolCall)])"
    by (rule routeFromAgent_tool[OF ne lst en])
  from en have node: "tc_name toolCall \<in> fst ` set (getEnabledToolNodes (pluginSystem this))"
    by (simp only: enabled_names_ok[OF ok] enabled_tool_node_iff[OF ok])
  have step: "resolveNext g (route_of this) ''agent'' msgs = Inr (tc_name toolCall)"
    by (simp add: tool_loop_routing_total[OF ok g] route)
  have returns: "\<forall>name n. (name, PluginNode n) \<in> set (nodes g) \<longrightarrow>
                    (name, ''agent'') \<in> set (edges g)"
    using g unfolding graph_buildGraph by force
  from route node step returns show ?thesis
    by (simp add: nodes_buildGraph[OF g])
qed

text \<open>
  The theorem at the example agent, whose last message asks for \<open>calculator\<close> first.
\<close>

theorem route_to_first_enabled_tool_witness:
  "PluginSystem_ok (pluginSystem demo_agent) \<and>
   tc_name (call_to ''calculator'') \<in> set (map p_name (getEnabledPlugins (pluginSystem demo_agent))) \<and>
   length (filter is_AIMessage
     [HumanMessage ''15% of 67.80?'', AIMessage [] [call_to ''calculator'', call_to ''ghost'']]) \<le> 10 \<and>
   graph (buildGraph demo_agent) \<noteq> None \<and>
   routeFromAgent demo_agent
     [HumanMessage ''15% of 67.80?'', AIMessage [] [call_to ''calculator'', call_to ''ghost'']] =
     (''calculator'', [Log ''Routing to tool: calculator'']) \<and>
   resolveNext (the (graph (buildGraph demo_agent))) (route_of demo_agent) ''agent''
     [HumanMessage ''15% of 67.80?'', AIMessage [] [call_to ''calculator'', call_to ''ghost'']] =
     Inr ''calculator'' \<and>
   (''calculator'', ''agent'') \<in> set (edges (the (graph (buildGraph demo_agent))))"
proof -
  let ?msgs = "[HumanMessage ''15% of 67.80?'',
                AIMessage [] [call_to ''calculator'', call_to ''ghost'']]"
  have ok: "PluginSystem_ok (pluginSystem demo_agent)"
    unfolding demo_agent_def demo_PluginSystem_def by (simp add: run_calls_ok)
  have ne: "?msgs \<noteq> []" by simp
  have lst: "last ?msgs = AIMessage [] (call_to ''calculator'' # [call_to ''ghost''])"
    by simp
  have en: "tc_name (call_to ''calculator'') \<in>
              set (map p_name (getEnabledPlugins (pluginSystem demo_agent)))"
    by (simp add: demo_agent_def demo_PluginSystem_def model_defs)
  have few: "length (filter is_AIMessage ?msgs) \<le> 10" by simp
  let ?g = "the (graph (buildGraph demo_agent))"
  have g: "graph (buildGraph demo_agent) = Some ?g"
    by (simp add: graph_buildGraph)
  have node: "(''calculator'', PluginNode (ToolNode [''Calculator''])) \<in> set (nodes ?g)"
    by (simp add: demo_agent_def demo_PluginSystem_def model_defs)
  from route_to_first_enabled_tool [OF ok ne lst en few g] node
  have "(''calculator'', ''agent'') \<in> set (edges ?g)" by blast
  moreover have "graph (buildGraph demo_agent) \<noteq> None"
    by (simp add: graph_buildGraph)
  ultimately show ?thesis
    using route_to_first_enabled_tool [OF ok ne lst en few g] ok en few
    by (simp add: call_to_def)
qed

text \<open>
  C4, at the tool-loop transcript: it has eleven assistant messages, more than the threshold
  of ten at which the router warns of a potential infinite loop, and its latest message calls
  the enabled tool \<open>search\<close>. The router returns \<open>search\<close>, not the terminal marker: the count
  is taken only after the tool route has returned.
\<close>

theorem loop_guard_after_tool_route:
  "length (filter is_AIMessage tool_loop_transcript) = 11 \<and>
   routeFromAgent demo_agent tool_loop_transcript =
     (''search'', [Log ''Routing to tool: search''])"
  by (simp add: tool_loop_transcript_def demo_agent_def demo_PluginSystem_def model_defs
      eval_nat_numeral)

text \<open>
  What does hold of the router's ends: without tool calls in the latest message, or with a
  first tool call that names no enabled plugin, the key is the terminal marker, and the count
  of assistant messages only decides whether the warning is written.
\<close>

lemma routeFromAgent_end:
  assumes "msgs = [] \<or> \<not> is_AIMessage (last msgs) \<or> (\<exists>c. last msgs = AIMessage c []) \<or>
           (\<exists>c toolCall rest. last msgs = AIMessage c (toolCall # rest) \<and>
              tc_name toolCall \<notin> set (map p_name (getEnabledPlugins (pluginSystem this))))"
  shows "routeFromAgent this msgs =
           (''__end__'',
            if length (filter is_AIMessage msgs) > 10
            then [Warn ''Potential infinite loop detected - forcing end of conversation'']
            else [])"
  using assms unfolding routeFromAgent_def list_ex_enabled
  by (auto simp: Let_def split: message.splits list.splits)

section \<open>The tool descriptions in the system prompt\<close>

lemma GetSubstitution_plain:
  "CHR ''$'' \<notin> set repl \<Longrightarrow> GetSubstitution matched preceding following repl = repl"
  by (induction matched preceding following repl rule: GetSubstitution.induct) auto

lemma String_indexOf_split:
  "String_indexOf s pat = Some pos \<Longrightarrow> s = take pos s @ pat @ drop (pos + length pat) s"
proof (induction s arbitrary: pos)
  case Nil
  then show ?case by (simp split: if_splits)
next
  case (Cons c cs)
  show ?case
  proof (cases "take (length pat) (c # cs) = pat")
    case True
    with Cons.prems have "pos = 0" by simp
    with True show ?thesis
      by (metis add_0 append_Nil append_take_drop_id take_0)
  next
    case False
    with Cons.prems obtain pos' where pos': "String_indexOf cs pat = Some pos'" "pos = Suc pos'"
      by auto
    from Cons.IH[OF pos'(1)] show ?thesis by (simp add: pos'(2))
  qed
qed

text \<open>
  The text that \<open>buildToolDescriptions\<close> returns is the lines \<open>- name: description\<close> of the
  enabled plugins, in registration order, joined by single newlines.
\<close>

lemma buildToolDescriptions_lines:
  "buildToolDescriptions this =
     join [CHR 0x0A]
       (map (\<lambda>(name, info). ''- '' @ name @ '': '' @ description info)
          (filter (\<lambda>(name, info). enabled info) (plugins (pluginSystem this))))"
  by (simp add: buildToolDescriptions_def getEnabledPlugins_def Let_def comp_def case_prod_unfold)

text \<open>
  When the prompt contains the placeholder and no name or description contains a dollar sign,
  the first placeholder is replaced by exactly that text.
\<close>

lemma getUpdatedSystemPrompt_plain:
  assumes "String_indexOf (systemPrompt this) ''{tool_descriptions}'' = Some pos"
    and "CHR ''$'' \<notin> set (buildToolDescriptions this)"
  shows "getUpdatedSystemPrompt this =
           take pos (systemPrompt this) @ buildToolDescriptions this @
           drop (pos + length ''{tool_descriptions}'') (systemPrompt this)"
  using assms by (simp add: getUpdatedSystemPrompt_def String_replace_def Let_def
      GetSubstitution_plain)

text \<open>
  C9, at an agent whose plugin describes itself with the characters \<open>$&\<close>: the description
  text is the line \<open>- regex_replace: Replace matches; $& inserts the match\<close>, but the text that
  \<open>getUpdatedSystemPrompt\<close> puts in place of the placeholder is not this line:
  \<open>String.prototype.replace\<close> reads \<open>$&\<close> in its replacement argument as the matched text and
  writes the placeholder itself there.
\<close>

theorem tool_descriptions_dollar_pattern:
  "buildToolDescriptions regex_agent = ''- regex_replace: Replace matches; $& inserts the match'' \<and>
   systemPrompt regex_agent = ''You can use these tools:'' @ [CHR 0x0A] @ ''{tool_descriptions}'' \<and>
   getUpdatedSystemPrompt regex_agent =
     ''You can use these tools:'' @ [CHR 0x0A] @
     ''- regex_replace: Replace matches; {tool_descriptions} inserts the match'' \<and>
   getUpdatedSystemPrompt regex_agent \<noteq>
     ''You can use these tools:'' @ [CHR 0x0A] @ buildToolDescriptions regex_agent"
  by (simp add: regex_agent_def model_defs)

section \<open>The reducer\<close>

text \<open>
  C5. Merging \<open>partialA\<close> and then \<open>partialB\<close> into a state gives the same \<open>messages\<close> channel
  as merging one combined partial whose messages are those of \<open>partialA\<close> followed by those of
  \<open>partialB\<close>, whatever the combined partial says about the other channels.
\<close>

theorem merge_messages_assoc:
  "messages (merge (merge state partialA) partialB) =
   messages (merge state \<lparr>partial_messages = Some (messages_of partialA @ messages_of partialB),
                          partial_channels = others\<rparr>)"
  by (simp add: merge_def messages_of_def)




end
